theory Spec2Isabelle
  imports Complex_Main "HOL-Library.Word"
begin

section \<open>Driver.h: the driver contract\<close>

text \<open>
  Pointers are machine addresses; the null pointer is \<open>None\<close>. Bytes are 8-bit words.
  The only abnormal outcome of the code modelled here is a failed \<open>assert\<close>, which ends
  the process.
\<close>

type_synonym addr = nat
type_synonym byte = "8 word"

datatype error = AssertionFailed

subsection \<open>Driver::Received\<close>

record Received =
  sender :: "addr option"
  driver :: "addr option"
  len :: "32 word"
  payload :: "addr option"

text \<open>\<open>Received()\<close>: no data, no driver.\<close>

definition Received_empty :: Received where
  "Received_empty = \<lparr>sender = None, driver = None, len = 0, payload = None\<rparr>"

text \<open>\<open>Received(sender, driver, len, payload)\<close>.\<close>

definition Received_new ::
  "addr option \<Rightarrow> addr option \<Rightarrow> 32 word \<Rightarrow> addr option \<Rightarrow> Received" where
  "Received_new s d l p = \<lparr>sender = s, driver = d, len = l, payload = p\<rparr>"

text \<open>
  The move constructor \<open>Received(Received&& other)\<close>. It returns the envelope it
  constructs and the state in which it leaves \<open>other\<close>.
\<close>

definition Received_move :: "Received \<Rightarrow> Received \<times> Received" where
  "Received_move other =
     (\<lparr>sender = sender other, driver = driver other,
       len = len other, payload = payload other\<rparr>,
      other\<lparr>sender := None, driver := None, len := 0, payload := None\<rparr>)"

text \<open>
  Modelled from the spec: \<open>Received::~Received\<close> is defined in Driver.cc, which is not
  among the sources. The spec: "while payload is non-null, destruction of the envelope
  MUST return the memory to the owning driver exactly once"; the header's comment on the
  field says the same ("If non-NULL then we must return this storage to the driver when
  this object is deleted"). The virtual method \<open>Driver::release\<close> of the owning driver is
  the parameter \<open>release\<close>, and \<open>d\<close> is the state of that driver.
\<close>

definition Received_dtor ::
  "(addr \<Rightarrow> 'd \<Rightarrow> error + 'd) \<Rightarrow> Received \<Rightarrow> 'd \<Rightarrow> error + 'd" where
  "Received_dtor release r d =
     (case payload r of None \<Rightarrow> Inr d | Some p \<Rightarrow> release p d)"

text \<open>
  Modelled from the spec: \<open>Received::steal\<close> is defined in Driver.cc, which is not among
  the sources. The spec: "after steal() is called, the envelope no longer owns the memory
  (payload cleared)". It returns the payload pointer, stores the length through its
  argument, and leaves the envelope without payload.
\<close>

definition steal :: "Received \<Rightarrow> (addr option \<times> 32 word) \<times> Received" where
  "steal r = ((payload r, len r), r\<lparr>payload := None\<rparr>)"

text \<open>Destroying every envelope of a sequence, first to last.\<close>

fun destroy_all ::
  "(addr \<Rightarrow> 'd \<Rightarrow> error + 'd) \<Rightarrow> Received list \<Rightarrow> 'd \<Rightarrow> error + 'd" where
  "destroy_all release [] d = Inr d"
| "destroy_all release (r # rs) d =
     (case Received_dtor release r d of
        Inl e \<Rightarrow> Inl e
      | Inr d' \<Rightarrow> destroy_all release rs d')"

text \<open>
  A driver that only records the \<open>release\<close> calls it receives, in order: the observer
  used to count how often a buffer comes back.
\<close>

definition record_release :: "addr \<Rightarrow> addr list \<Rightarrow> error + addr list" where
  "record_release p calls = Inr (calls @ [p])"

text \<open>
  Envelopes held in a \<open>std::vector\<close>: \<open>moves is xs\<close> move-constructs, for each index of
  \<open>is\<close> in turn, a new envelope at the end of the sequence from the envelope at that
  index, which stays behind in its moved-from state. An index out of range moves nothing.
\<close>

fun moves :: "nat list \<Rightarrow> Received list \<Rightarrow> Received list" where
  "moves [] xs = xs"
| "moves (i # is) xs =
     moves is (if i < length xs
               then xs[i := snd (Received_move (xs ! i))] @ [fst (Received_move (xs ! i))]
               else xs)"

text \<open>The number of envelopes of a sequence that own the buffer \<open>p\<close>.\<close>

definition owners :: "addr \<Rightarrow> Received list \<Rightarrow> nat" where
  "owners p xs = length (filter (\<lambda>r. payload r = Some p) xs)"

subsection \<open>Defaults and constants of the base class\<close>

text \<open>\<open>Driver::getTransmitQueueSpace\<close>, the default: no throttling.\<close>

definition Driver_getTransmitQueueSpace :: "64 word \<Rightarrow> int" where
  "Driver_getTransmitQueueSpace currentTime = 10000000"

text \<open>\<open>Driver::MAX_DRAIN_TIME\<close>, in nanoseconds.\<close>

definition MAX_DRAIN_TIME :: nat where
  "MAX_DRAIN_TIME = 2000"

section \<open>The queue estimator\<close>

text \<open>
  Modelled from the spec: the class QueueEstimator (QueueEstimator.h) is not among the
  sources. The spec: "state: configured bandwidth (bytes/unit-time), a record of the last
  time and cumulative bytes enqueued"; "each packetQueued(bytes, now) appends to a
  logical backlog; getQueueSize(now) computes backlog minus (now - lastTime) * bandwidth,
  floored at zero, and updates the internal time/backlog baseline". Times are clock ticks;
  the bandwidth is in bytes per tick and need not be a whole number (the unit test
  gbsOption expects 2.5 at 40 Gbit/s and 2e9 ticks per second), so the backlog is a
  rational number.
\<close>

record QueueEstimator =
  bandwidth :: rat
  lastTime :: nat
  backlog :: rat

text \<open>
  Modelled from the spec: "getQueueSize(now) computes backlog minus (now - lastTime) *
  bandwidth, floored at zero, and updates the internal time/backlog baseline". The
  estimate is reported in whole bytes.
\<close>

definition getQueueSize :: "QueueEstimator \<Rightarrow> nat \<Rightarrow> int \<times> QueueEstimator" where
  "getQueueSize e now =
     (let b = max 0 (backlog e - of_int (int now - int (lastTime e)) * bandwidth e)
      in (\<lfloor>b\<rfloor>, e\<lparr>lastTime := now, backlog := b\<rparr>))"

text \<open>
  Modelled from the spec: "each packetQueued(bytes, now) appends to a logical backlog",
  the backlog at \<open>now\<close>, which becomes the last time.
\<close>

definition packetQueued :: "QueueEstimator \<Rightarrow> nat \<Rightarrow> nat \<Rightarrow> QueueEstimator" where
  "packetQueued e bytes now =
     (let e' = snd (getQueueSize e now) in e'\<lparr>backlog := backlog e' + of_nat bytes\<rparr>)"

text \<open>
  Modelled from the spec: "bandwidth is set once at construction from a
  fabric/locator-derived Gbit/s value". The argument is in Mbit/s, as the constructor of
  DpdkDriver passes it; \<open>cyclesPerSec\<close> is the clock rate.
\<close>

definition setBandwidth :: "rat \<Rightarrow> QueueEstimator \<Rightarrow> nat \<Rightarrow> QueueEstimator" where
  "setBandwidth cyclesPerSec e mBitsPerSecond =
     e\<lparr>bandwidth := of_nat mBitsPerSecond * 1000000 / 8 / cyclesPerSec\<rparr>"

text \<open>
  Modelled from the spec: the estimator as constructed, with nothing queued and the
  bandwidth set.
\<close>

definition QueueEstimator_new :: "rat \<Rightarrow> nat \<Rightarrow> QueueEstimator" where
  "QueueEstimator_new cyclesPerSec mBitsPerSecond =
     setBandwidth cyclesPerSec \<lparr>bandwidth = 0, lastTime = 0, backlog = 0\<rparr> mBitsPerSecond"

text \<open>A history of calls on one estimator, and the bytes and times it mentions.\<close>

datatype estimator_call = Queued nat nat | Query nat

fun call_time :: "estimator_call \<Rightarrow> nat" where
  "call_time (Queued bytes now) = now"
| "call_time (Query now) = now"

fun call_bytes :: "estimator_call \<Rightarrow> nat" where
  "call_bytes (Queued bytes now) = bytes"
| "call_bytes (Query now) = 0"

fun do_call :: "QueueEstimator \<Rightarrow> estimator_call \<Rightarrow> QueueEstimator" where
  "do_call e (Queued bytes now) = packetQueued e bytes now"
| "do_call e (Query now) = snd (getQueueSize e now)"

definition estimator_calls :: "QueueEstimator \<Rightarrow> estimator_call list \<Rightarrow> QueueEstimator" where
  "estimator_calls e cs = foldl do_call e cs"

section \<open>DpdkDriver.cc\<close>

subsection \<open>Constants and types declared outside the sources\<close>

text \<open>
  DpdkDriver.h and NetUtil.h are not among the sources, so the constants they declare
  are parameters: \<open>MAX_PAYLOAD_SIZE\<close> (a \<open>uint32_t\<close>), the Ethernet type
  \<open>NetUtil::EthPayloadType::FAST\<close>, and the number of bytes that \<open>rte_pktmbuf_append\<close> can
  add to a fresh buffer of \<open>packetPool\<close> (fixed by \<open>MBUF_SIZE\<close>).
\<close>

record Config =
  MAX_PAYLOAD_SIZE :: "32 word"
  FAST :: "16 word"
  MBUF_TAILROOM :: nat

text \<open>
  \<open>sizeof(NetUtil::EthernetHeader)\<close>: the three fields that \<open>sendPacket\<close> writes, a
  destination and a source address of 6 bytes each and the 16-bit type.
\<close>

definition sizeofEthernetHeader :: nat where
  "sizeofEthernetHeader = 14"

text \<open>A \<open>MacAddress\<close> holds \<open>uint8_t address[6]\<close>.\<close>

datatype MacAddress = MacAddress byte byte byte byte byte byte

fun address :: "MacAddress \<Rightarrow> byte list" where
  "address (MacAddress a b c d e f) = [a, b, c, d, e, f]"

text \<open>
  A byte of a packet buffer. Beyond the data of the frame the buffer holds whatever was
  there before; the model reads 0.
\<close>

definition byteAt :: "byte list \<Rightarrow> nat \<Rightarrow> byte" where
  "byteAt m i = (if i < length m then m ! i else 0)"

text \<open>\<open>MacAddress(const uint8_t raw[6])\<close>, with \<open>raw\<close> at offset \<open>off\<close> of a frame.\<close>

definition MacAddress_raw :: "byte list \<Rightarrow> nat \<Rightarrow> MacAddress" where
  "MacAddress_raw m off =
     MacAddress (byteAt m off) (byteAt m (off + 1)) (byteAt m (off + 2))
                (byteAt m (off + 3)) (byteAt m (off + 4)) (byteAt m (off + 5))"

text \<open>\<open>DpdkDriver::PacketBuf\<close>: the sender's address and the packet data.\<close>

record PacketBuf =
  dpdkAddress :: MacAddress
  payload :: "byte list"

text \<open>
  Modelled from the spec: the class ObjectPool is not among the sources. The spec: the
  pool is a "per-backend allocator of reusable receive-buffer slots", a slot is
  "allocated from the pool when a packet arrives, referenced via the Received envelope,
  returned to the pool". The pool is the list of the objects now in use, each with its
  address; \<open>construct\<close> places the object at an address that is not in use.
\<close>

type_synonym 'a ObjectPool = "(addr \<times> 'a) list"

text \<open>
  Modelled from the spec: an address at which no object of the pool is in use, the place
  of the next object.
\<close>

definition unused_address :: "'a ObjectPool \<Rightarrow> addr" where
  "unused_address pool = Suc (foldr max (map fst pool) 0)"

text \<open>
  Modelled from the spec: \<open>ObjectPool::construct\<close>, "allocated from the pool when a packet
  arrives". It returns the address of the new object and the pool.
\<close>

definition construct :: "'a ObjectPool \<Rightarrow> 'a \<Rightarrow> addr \<times> 'a ObjectPool" where
  "construct pool obj = (unused_address pool, (unused_address pool, obj) # pool)"

text \<open>Modelled from the spec: \<open>ObjectPool::destroy\<close>, "returned to the pool".\<close>

definition destroy :: "'a ObjectPool \<Rightarrow> addr \<Rightarrow> 'a ObjectPool" where
  "destroy pool a = filter (\<lambda>slot. fst slot \<noteq> a) pool"

subsection \<open>The driver\<close>

text \<open>
  The fields of a \<open>DpdkDriver\<close> that the methods below read or write. \<open>packetPool\<close> is the
  number of free buffers of the DPDK memory pool; \<open>loopbackRing\<close> is the content of the
  ring, oldest frame first. The hardware queues of port \<open>portId\<close> are part of the state:
  \<open>nicRx\<close> holds the frames that have arrived, oldest first, \<open>nicTx\<close> the frames handed
  over for transmission, and \<open>nicTxFree\<close> counts the free transmit descriptors. \<open>logged\<close>
  collects the messages written to the log.
\<close>

record DpdkDriver =
  packetBufPool :: "PacketBuf ObjectPool"
  packetBufsUtilized :: int
  localMac :: MacAddress
  packetPool :: nat
  loopbackRing :: "byte list list"
  nicRx :: "byte list list"
  nicTx :: "byte list list"
  nicTxFree :: nat
  bandwidthGbps :: int
  queueEstimator :: QueueEstimator
  maxTransmitQueueSize :: "32 word"
  logged :: "string list"

text \<open>\<open>DpdkDriver::getMaxPacketSize\<close>, in \<open>uint32_t\<close> arithmetic.\<close>

definition getMaxPacketSize :: "Config \<Rightarrow> 32 word" where
  "getMaxPacketSize c = MAX_PAYLOAD_SIZE c - of_nat sizeofEthernetHeader"

text \<open>
  The constructor's computation of \<open>maxTransmitQueueSize\<close> from \<open>bandwidthGbps\<close>. The
  product and the quotient are taken in \<open>double\<close>; for a 32-bit \<open>bandwidthGbps\<close> both are
  exact, so the model computes them in the rationals. The conversion to \<open>uint32_t\<close>
  truncates; C++ leaves it undefined when the truncated value is not a \<open>uint32_t\<close>, and
  the model returns \<open>None\<close> there.
\<close>

definition double_to_uint32 :: "rat \<Rightarrow> 32 word option" where
  "double_to_uint32 x =
     (if - 1 < x \<and> x < 2 ^ 32 then Some (word_of_int (if 0 \<le> x then \<lfloor>x\<rfloor> else \<lceil>x\<rceil>))
      else None)"

definition computeMaxTransmitQueueSize :: "Config \<Rightarrow> int \<Rightarrow> 32 word option" where
  "computeMaxTransmitQueueSize c gbps =
     (case double_to_uint32 (of_int gbps * of_nat MAX_DRAIN_TIME / 8) of
        None \<Rightarrow> None
      | Some q \<Rightarrow>
          (let maxPacketSize = getMaxPacketSize c
           in if q < 2 * maxPacketSize then Some (2 * maxPacketSize) else Some q))"

text \<open>
  \<open>DpdkDriver::getTransmitQueueSpace\<close>. The estimate is a byte count, converted to
  \<open>uint32_t\<close>; the difference is taken in \<open>uint32_t\<close> and returned as an \<open>int\<close>. The call
  updates the estimator.
\<close>

definition getTransmitQueueSpace :: "DpdkDriver \<Rightarrow> 64 word \<Rightarrow> int \<times> DpdkDriver" where
  "getTransmitQueueSpace d currentTime =
     (let (q, e) = getQueueSize (queueEstimator d) (unat currentTime)
      in (sint (maxTransmitQueueSize d - word_of_int q), d\<lparr>queueEstimator := e\<rparr>))"

text \<open>
  \<open>DpdkDriver::release\<close>. The dispatch lock orders this call with the dispatch thread
  and has no effect on the state of the driver. The address of the \<open>PacketBuf\<close> stands
  for the address of its payload.
\<close>

definition release :: "addr \<Rightarrow> DpdkDriver \<Rightarrow> error + DpdkDriver" where
  "release p d =
     (let utilized = packetBufsUtilized d - 1
      in if \<not> 0 \<le> utilized then Inl AssertionFailed
         else Inr (d\<lparr>packetBufsUtilized := utilized,
                     packetBufPool := destroy (packetBufPool d) p\<rparr>))"

text \<open>\<open>MAX_PACKETS_AT_ONCE\<close>, defined inside \<open>receivePackets\<close>.\<close>

definition MAX_PACKETS_AT_ONCE :: nat where
  "MAX_PACKETS_AT_ONCE = 32"

text \<open>
  The body of the second loop of \<open>receivePackets\<close>, for the frame \<open>m\<close>: a \<open>PacketBuf\<close>
  is constructed and counted, the sender's address is read at offset
  \<open>sizeof(struct ether_addr)\<close>, which is 6, the length is the frame's \<open>data_len\<close> less
  the Ethernet header, in \<open>uint32_t\<close> arithmetic, that many bytes after the header are
  copied, the envelope is appended and the frame's buffer goes back to \<open>packetPool\<close>.
  The envelope's \<open>sender\<close> and \<open>payload\<close> point into the new \<open>PacketBuf\<close>, whose address
  stands for both.
\<close>

definition processPacket ::
  "addr \<Rightarrow> Received list \<times> DpdkDriver \<Rightarrow> byte list \<Rightarrow> Received list \<times> DpdkDriver" where
  "processPacket this rd m =
     (let receivedPackets = fst rd;
          d = snd rd;
          length32 = (of_nat (length m) :: 32 word) - of_nat sizeofEthernetHeader;
          buffer = \<lparr>dpdkAddress = MacAddress_raw m 6,
                    payload = take (unat length32) (drop sizeofEthernetHeader m)\<rparr>;
          slot = construct (packetBufPool d) buffer
      in (receivedPackets @
            [Received_new (Some (fst slot)) (Some this) length32 (Some (fst slot))],
          d\<lparr>packetBufPool := snd slot,
            packetBufsUtilized := packetBufsUtilized d + 1,
            packetPool := packetPool d + 1\<rparr>))"

text \<open>
  \<open>DpdkDriver::receivePackets\<close>; \<open>this\<close> is the address of the driver. The burst takes
  up to \<open>MAX_PACKETS_AT_ONCE/2\<close> frames from the hardware queue, the first loop dequeues
  \<open>loopbackPkts\<close> frames from the ring. The first binding is the source's clamp of
  \<open>maxPackets\<close>.
\<close>

definition receivePackets ::
  "addr \<Rightarrow> int \<Rightarrow> Received list \<Rightarrow> DpdkDriver \<Rightarrow> Received list \<times> DpdkDriver" where
  "receivePackets this maxPackets receivedPackets d =
     (let maxPackets = (if maxPackets > int MAX_PACKETS_AT_ONCE
                        then int MAX_PACKETS_AT_ONCE else maxPackets);
          incoming = take (MAX_PACKETS_AT_ONCE div 2) (nicRx d);
          incomingPkts = length incoming;
          loopbackPkts = length (loopbackRing d);
          loopbackPkts = (if incomingPkts + loopbackPkts > MAX_PACKETS_AT_ONCE
                          then MAX_PACKETS_AT_ONCE - incomingPkts else loopbackPkts);
          mPkts = incoming @ take loopbackPkts (loopbackRing d);
          d1 = d\<lparr>nicRx := drop (MAX_PACKETS_AT_ONCE div 2) (nicRx d),
                 loopbackRing := drop loopbackPkts (loopbackRing d)\<rparr>
      in foldl (processPacket this) (receivedPackets, d1) mPkts)"

text \<open>
  The Ethernet header that \<open>sendPacket\<close> writes: destination, source, and the type in
  network byte order (\<open>HTONS\<close>).
\<close>

definition ethernetHeader :: "Config \<Rightarrow> MacAddress \<Rightarrow> MacAddress \<Rightarrow> byte list" where
  "ethernetHeader c dest src =
     address dest @ address src @ [ucast (drop_bit 8 (FAST c)), ucast (FAST c)]"

text \<open>
  The loopback ring is created with a count of 4096; a DPDK ring of count \<open>n\<close> holds
  \<open>n - 1\<close> entries, and \<open>rte_ring_enqueue\<close> on a full ring enqueues nothing.
\<close>

definition LOOPBACK_RING_CAPACITY :: nat where
  "LOOPBACK_RING_CAPACITY = 4095"

text \<open>
  \<open>DpdkDriver::sendPacket\<close>. \<open>header\<close> is the \<open>headerLen\<close> bytes at the caller's
  pointer; \<open>payloadIt\<close> is the iterator, \<open>None\<close> for \<open>NULL\<close>, given by the contiguous
  segments it still has to visit; \<open>now\<close> is the value of \<open>Cycles::rdtsc()\<close>. The lengths
  are \<open>uint32_t\<close>. \<open>downCast\<close> is RAMCloud's checked narrowing, an assertion that the value
  fits. \<open>rte_pktmbuf_alloc\<close> fails when the pool has no free buffer, \<open>rte_pktmbuf_append\<close>
  when the buffer has less room than asked for; the results of \<open>rte_ring_enqueue\<close> and
  \<open>rte_eth_tx_burst\<close> are not looked at. A header and payload of 4 GiB together make the
  sum wrap around; the source then copies beyond the buffer, which the model does not
  follow.
\<close>

definition sendPacket ::
  "Config \<Rightarrow> MacAddress \<Rightarrow> byte list \<Rightarrow> byte list list option \<Rightarrow> 64 word
     \<Rightarrow> DpdkDriver \<Rightarrow> error + DpdkDriver" where
  "sendPacket c recipient header payloadIt now d =
     (let headerLen = (of_nat (length header) :: 32 word);
          totalLength = headerLen +
            (case payloadIt of None \<Rightarrow> 0 | Some segments \<Rightarrow> of_nat (length (concat segments)));
          datagramLength = totalLength + of_nat sizeofEthernetHeader
      in if \<not> totalLength \<le> MAX_PAYLOAD_SIZE c then Inl AssertionFailed
         else if packetPool d = 0
         then Inr (d\<lparr>logged := logged d @
                      [''Failed to allocate a packet buffer; dropping packet'']\<rparr>)
         else if 2 ^ 16 \<le> unat datagramLength then Inl AssertionFailed
         else if MBUF_TAILROOM c < unat datagramLength
         then Inr (d\<lparr>logged := logged d @
                      [''rte_pktmbuf_append call failed; dropping packet'']\<rparr>)
         else
           (let frame = ethernetHeader c recipient (localMac d) @ header @
                  (case payloadIt of None \<Rightarrow> [] | Some segments \<Rightarrow> concat segments);
                d1 = d\<lparr>packetPool := packetPool d - 1\<rparr>;
                d2 = (if address recipient = address (localMac d)
                      then (if length (loopbackRing d1) < LOOPBACK_RING_CAPACITY
                            then d1\<lparr>loopbackRing := loopbackRing d1 @ [frame]\<rparr>
                            else d1)
                      else (if 0 < nicTxFree d1
                            then d1\<lparr>nicTx := nicTx d1 @ [frame],
                                    nicTxFree := nicTxFree d1 - 1\<rparr>
                            else d1))
            in Inr (d2\<lparr>queueEstimator :=
                         packetQueued (queueEstimator d2) (unat totalLength) (unat now)\<rparr>)))"


text \<open>
  The frames that one call of \<open>receivePackets\<close> takes from the hardware queue and from
  the loopback ring, in the order in which it processes them, and the driver once they
  are taken.
\<close>

definition polled :: "DpdkDriver \<Rightarrow> byte list list" where
  "polled d =
     take (MAX_PACKETS_AT_ONCE div 2) (nicRx d) @
     take (MAX_PACKETS_AT_ONCE - length (take (MAX_PACKETS_AT_ONCE div 2) (nicRx d)))
       (loopbackRing d)"

definition dequeued :: "DpdkDriver \<Rightarrow> DpdkDriver" where
  "dequeued d =
     d\<lparr>nicRx := drop (MAX_PACKETS_AT_ONCE div 2) (nicRx d),
       loopbackRing :=
         drop (MAX_PACKETS_AT_ONCE - length (take (MAX_PACKETS_AT_ONCE div 2) (nicRx d)))
           (loopbackRing d)\<rparr>"


definition payloadBytes :: "byte list list option \<Rightarrow> byte list" where
  "payloadBytes payloadIt = (case payloadIt of None \<Rightarrow> [] | Some segments \<Rightarrow> concat segments)"

definition totalLength :: "byte list \<Rightarrow> byte list list option \<Rightarrow> 32 word" where
  "totalLength header payloadIt = of_nat (length header + length (payloadBytes payloadIt))"

definition frameOf :: "Config \<Rightarrow> MacAddress \<Rightarrow> DpdkDriver \<Rightarrow> byte list \<Rightarrow> byte list list option \<Rightarrow> byte list" where
  "frameOf c recipient d header payloadIt =
     ethernetHeader c recipient (localMac d) @ header @ payloadBytes payloadIt"

subsection \<open>Sequences of calls\<close>

text \<open>
  A caller's calls on one driver, in order. Every \<open>receivePackets\<close> appends to the same
  vector; a failed assertion ends the run.
\<close>

datatype driver_call =
    ReceivePackets int
  | Release addr
  | SendPacket MacAddress "byte list" "byte list list option" "64 word"

fun do_driver_call ::
  "Config \<Rightarrow> addr \<Rightarrow> Received list \<times> DpdkDriver \<Rightarrow> driver_call
     \<Rightarrow> error + Received list \<times> DpdkDriver" where
  "do_driver_call c this (rs, d) (ReceivePackets n) = Inr (receivePackets this n rs d)"
| "do_driver_call c this (rs, d) (Release p) =
     (case release p d of Inl e \<Rightarrow> Inl e | Inr d' \<Rightarrow> Inr (rs, d'))"
| "do_driver_call c this (rs, d) (SendPacket recipient header payloadIt now) =
     (case sendPacket c recipient header payloadIt now d of
        Inl e \<Rightarrow> Inl e
      | Inr d' \<Rightarrow> Inr (rs, d'))"

fun driver_calls ::
  "Config \<Rightarrow> addr \<Rightarrow> Received list \<times> DpdkDriver \<Rightarrow> driver_call list
     \<Rightarrow> error + Received list \<times> DpdkDriver" where
  "driver_calls c this st [] = Inr st"
| "driver_calls c this st (x # xs) =
     (case do_driver_call c this st x of
        Inl e \<Rightarrow> Inl e
      | Inr st' \<Rightarrow> driver_calls c this st' xs)"

fun is_Release :: "driver_call \<Rightarrow> bool" where
  "is_Release (Release p) = True"
| "is_Release x = False"

definition releases :: "driver_call list \<Rightarrow> nat" where
  "releases cs = length (filter is_Release cs)"

subsection \<open>A configuration and a driver to evaluate on\<close>

text \<open>
  The values of the absent constants are chosen for the examples: a payload limit of
  1400 bytes, buffers with room for 2048 bytes, Ethernet type 0x88b5. The driver is as
  its constructor leaves it at the default bandwidth of 10 Gbit/s and 2e9 ticks per
  second, with 8 packet buffers and 4 transmit descriptors.
\<close>

definition example_config :: Config where
  "example_config = \<lparr>MAX_PAYLOAD_SIZE = 1400, FAST = 0x88b5, MBUF_TAILROOM = 2048\<rparr>"

definition example_mac :: MacAddress where
  "example_mac = MacAddress 0 1 2 3 4 5"

definition peer_mac :: MacAddress where
  "peer_mac = MacAddress 0 1 2 3 4 6"

definition example_driver :: DpdkDriver where
  "example_driver =
     \<lparr>packetBufPool = [], packetBufsUtilized = 0, localMac = example_mac,
      packetPool = 8, loopbackRing = [], nicRx = [], nicTx = [], nicTxFree = 4,
      bandwidthGbps = 10, queueEstimator = QueueEstimator_new 2000000000 10000,
      maxTransmitQueueSize = 2772, logged = []\<rparr>"

text \<open>
  The example driver after it has sent the two bytes 104, 105 to its own address at time
  0 and received them, and after it has then released the buffer.
\<close>

definition received_driver :: DpdkDriver where
  "received_driver =
     example_driver
       \<lparr>packetBufPool := [(1, \<lparr>dpdkAddress = example_mac, payload = [104, 105]\<rparr>)],
        packetBufsUtilized := 1,
        queueEstimator := packetQueued (queueEstimator example_driver) 2 0\<rparr>"

definition released_driver :: DpdkDriver where
  "released_driver =
     example_driver\<lparr>queueEstimator := packetQueued (queueEstimator example_driver) 2 0\<rparr>"



text \<open>
  A driver whose caller has sent three packets of 1386 bytes at time 0, more than its
  \<open>maxTransmitQueueSize\<close>.
\<close>

definition oversent_driver :: DpdkDriver where
  "oversent_driver =
     example_driver\<lparr>queueEstimator :=
       packetQueued (packetQueued (packetQueued (queueEstimator example_driver)
         1386 0) 1386 0) 1386 0\<rparr>"

section \<open>Service locators\<close>

datatype locator_error = NoSuchKeyException | BadValueException

type_synonym ServiceLocator = "(string \<times> string) list"

text \<open>
  Modelled from the spec: \<open>newAddress\<close> is pure virtual in Driver.h; its implementations
  and the class ServiceLocator are not among the sources. The spec: "parses
  backend-specific locator options; fails with a NoSuchKeyException-kind error when a
  required option is absent, and a BadValueException-kind error when present but
  malformed". A locator is the list of its options, each a key and a value;
  \<open>getOption\<close> looks one up.
\<close>

definition getOption :: "ServiceLocator \<Rightarrow> string \<Rightarrow> locator_error + string" where
  "getOption locator key =
     (case map_of locator key of None \<Rightarrow> Inl NoSuchKeyException | Some v \<Rightarrow> Inr v)"

text \<open>
  Modelled from the spec: \<open>newAddress\<close> for the backend that requires the option \<open>key\<close> and
  reads its value with \<open>parse\<close>: a missing option fails with \<open>NoSuchKeyException\<close>, a
  value that does not parse with \<open>BadValueException\<close>.
\<close>

definition newAddress ::
  "string \<Rightarrow> (string \<Rightarrow> 'a option) \<Rightarrow> ServiceLocator \<Rightarrow> locator_error + 'a" where
  "newAddress key parse locator =
     (case getOption locator key of
        Inl e \<Rightarrow> Inl e
      | Inr v \<Rightarrow> (case parse v of None \<Rightarrow> Inl BadValueException | Some a \<Rightarrow> Inr a))"

text \<open>A numeric option value, such as a port: one or more decimal digits.\<close>

definition digit :: "char \<Rightarrow> nat option" where
  "digit c =
     (if (48 :: nat) \<le> of_char c \<and> (of_char c :: nat) \<le> 57 then Some (of_char c - 48)
      else None)"

fun number_from :: "nat \<Rightarrow> string \<Rightarrow> nat option" where
  "number_from acc [] = Some acc"
| "number_from acc (c # cs) =
     (case digit c of None \<Rightarrow> None | Some k \<Rightarrow> number_from (10 * acc + k) cs)"

definition number :: "string \<Rightarrow> nat option" where
  "number s = (if s = [] then None else number_from 0 s)"

section \<open>Unfolding the examples\<close>

lemmas example_defs =
  example_config_def example_driver_def example_mac_def peer_mac_def

lemmas receive_defs =
  receivePackets_def processPacket_def construct_def unused_address_def MacAddress_raw_def
  byteAt_def Received_new_def MAX_PACKETS_AT_ONCE_def sizeofEthernetHeader_def Let_def

lemmas send_defs =
  sendPacket_def ethernetHeader_def LOOPBACK_RING_CAPACITY_def

lemma example_cfg:
  "unat (MAX_PAYLOAD_SIZE example_config) + sizeofEthernetHeader < 2 ^ 16"
  "sizeofEthernetHeader \<le> unat (MAX_PAYLOAD_SIZE example_config)"
  "unat (MAX_PAYLOAD_SIZE example_config) \<le> MBUF_TAILROOM example_config"
  by (simp_all add: example_config_def sizeofEthernetHeader_def)

section \<open>Ownership of received buffers\<close>

lemma destroy_all_record:
  "destroy_all record_release xs calls =
     Inr (calls @ concat (map (\<lambda>r. case Received.payload r of None \<Rightarrow> [] | Some p \<Rightarrow> [p]) xs))"
  by (induction xs arbitrary: calls)
     (auto simp: Received_dtor_def record_release_def split: option.splits)

lemma count_released:
  "count_list (concat (map (\<lambda>r. case Received.payload r of None \<Rightarrow> [] | Some p \<Rightarrow> [p]) xs)) p
     = owners p xs"
  by (induction xs) (auto simp: owners_def split: option.splits)

lemma owners_append: "owners p (xs @ ys) = owners p xs + owners p ys"
  by (simp add: owners_def)

lemma owners_update:
  "i < length xs \<Longrightarrow>
   owners p (xs[i := r]) + (if Received.payload (xs ! i) = Some p then 1 else 0)
     = owners p xs + (if Received.payload r = Some p then 1 else 0)"
proof (induction xs arbitrary: i)
  case Nil
  then show ?case by simp
next
  case (Cons x xs)
  show ?case
  proof (cases i)
    case 0
    then show ?thesis by (simp add: owners_def)
  next
    case (Suc j)
    with Cons.prems have "j < length xs" by simp
    from Cons.IH [OF this] Suc show ?thesis by (simp add: owners_def)
  qed
qed

lemma owners_moves: "owners p (moves is xs) = owners p xs"
proof (induction "is" arbitrary: xs)
  case Nil
  then show ?case by simp
next
  case (Cons i "is")
  show ?case
  proof (cases "i < length xs")
    case True
    have new: "owners p [fst (Received_move (xs ! i))]
                 = (if Received.payload (xs ! i) = Some p then 1 else 0)"
      by (simp add: owners_def Received_move_def)
    have old: "Received.payload (snd (Received_move (xs ! i))) \<noteq> Some p"
      by (simp add: Received_move_def)
    from owners_update [OF True, of p "snd (Received_move (xs ! i))"] old
    have "owners p (xs[i := snd (Received_move (xs ! i))])
            + (if Received.payload (xs ! i) = Some p then 1 else 0) = owners p xs"
      by simp
    with new
    have "owners p (xs[i := snd (Received_move (xs ! i))] @ [fst (Received_move (xs ! i))])
            = owners p xs"
      by (simp only: owners_append)
    with True Cons.IH show ?thesis by simp
  next
    case False
    with Cons.IH show ?thesis by simp
  qed
qed

text \<open>
  Claim C10. Move-constructing a \<open>Received\<close> transfers ownership without duplicating
  it: the new envelope has the sender, driver, length and payload of the source, the
  source is left with null pointers and length 0, and destroying the moved-from source
  calls \<open>release\<close> on no driver. However the envelopes of a vector are moved, destroying
  all of them afterwards releases a buffer as many times as there were envelopes owning
  it before the moves; so a buffer with at most one owner is returned at most once.
\<close>

theorem move_transfers_ownership:
  "sender (fst (Received_move r)) = sender r \<and>
   driver (fst (Received_move r)) = driver r \<and>
   len (fst (Received_move r)) = len r \<and>
   Received.payload (fst (Received_move r)) = Received.payload r \<and>
   snd (Received_move r) = Received_empty \<and>
   Received_dtor rel (snd (Received_move r)) d = Inr d \<and>
   (\<exists>calls. destroy_all record_release (moves is xs) [] = Inr calls \<and>
      count_list calls p = owners p xs \<and>
      (owners p xs \<le> 1 \<longrightarrow> count_list calls p \<le> 1))"
proof -
  have fields: "fst (Received_move r) = r" "snd (Received_move r) = Received_empty"
    by (simp_all add: Received_move_def Received_empty_def)
  have dtor: "Received_dtor rel (snd (Received_move r)) d = Inr d"
    by (simp add: fields Received_dtor_def Received_empty_def)
  have "count_list
          (concat (map (\<lambda>r. case Received.payload r of None \<Rightarrow> [] | Some p \<Rightarrow> [p])
             (moves is xs))) p = owners p xs"
    by (simp only: count_released owners_moves)
  with destroy_all_record [of "moves is xs" "[]"] fields dtor show ?thesis
    by simp
qed

theorem move_transfers_ownership_witness:
  "owners 1 [Received_new (Some 1) (Some 7) 5 (Some 1)] \<le> 1 \<and>
   (\<exists>calls. destroy_all record_release
               (moves [0, 1] [Received_new (Some 1) (Some 7) 5 (Some 1)]) [] = Inr calls \<and>
      count_list calls 1 \<le> 1)"
proof -
  have h: "owners 1 [Received_new (Some 1) (Some 7) 5 (Some 1)] \<le> 1"
    by (simp add: owners_def Received_new_def)
  from move_transfers_ownership
    [of Received_empty record_release "[]" "[0, 1]"
        "[Received_new (Some 1) (Some 7) 5 (Some 1)]" 1] h
  obtain calls where
    "destroy_all record_release
       (moves [0, 1] [Received_new (Some 1) (Some 7) 5 (Some 1)]) [] = Inr calls"
    "count_list calls 1 \<le> 1"
    by blast
  with h show ?thesis by blast
qed

section \<open>The count of buffers in use\<close>

lemma processPacket_count:
  "packetBufsUtilized (snd (processPacket this (rs, d) m)) = packetBufsUtilized d + 1"
  "length (fst (processPacket this (rs, d) m)) = length rs + 1"
  by (simp_all add: processPacket_def Let_def)

lemma foldl_processPacket_count:
  "packetBufsUtilized (snd (foldl (processPacket this) (rs, d) ms))
     = packetBufsUtilized d + int (length ms) \<and>
   length (fst (foldl (processPacket this) (rs, d) ms)) = length rs + length ms"
proof (induction ms arbitrary: rs d)
  case Nil
  then show ?case by simp
next
  case (Cons m ms)
  obtain rs1 d1 where step: "processPacket this (rs, d) m = (rs1, d1)"
    by (cases "processPacket this (rs, d) m")
  with processPacket_count [of this rs d m]
  have "packetBufsUtilized d1 = packetBufsUtilized d + 1" "length rs1 = length rs + 1"
    by simp_all
  with Cons.IH [of rs1 d1] step show ?case by simp
qed

lemma receivePackets_polled:
  "receivePackets this n rs d = foldl (processPacket this) (rs, dequeued d) (polled d)"
  by (simp add: receivePackets_def polled_def dequeued_def Let_def MAX_PACKETS_AT_ONCE_def
        min_def)

lemma receivePackets_count:
  "packetBufsUtilized (snd (receivePackets this n rs d))
     = packetBufsUtilized d + int (length (polled d)) \<and>
   length (fst (receivePackets this n rs d)) = length rs + length (polled d)"
  using foldl_processPacket_count [of this rs "dequeued d" "polled d"]
  by (simp add: receivePackets_polled dequeued_def)

lemma sendPacket_count:
  "sendPacket c recipient header payloadIt now d = Inr d' \<Longrightarrow>
   packetBufsUtilized d' = packetBufsUtilized d"
  by (auto simp: sendPacket_def Let_def split: if_splits)

lemma release_count:
  "release p d = Inr d' \<Longrightarrow>
   packetBufsUtilized d' = packetBufsUtilized d - 1 \<and> 0 \<le> packetBufsUtilized d'"
  by (auto simp: release_def Let_def split: if_splits)

lemma do_driver_call_count:
  assumes "do_driver_call c this (rs, d) x = Inr (rs', d')"
  shows "packetBufsUtilized d' - int (length rs') + (if is_Release x then 1 else 0)
           = packetBufsUtilized d - int (length rs) \<and>
         (0 \<le> packetBufsUtilized d \<longrightarrow> 0 \<le> packetBufsUtilized d')"
proof (cases x)
  case (ReceivePackets n)
  with assms have "receivePackets this n rs d = (rs', d')" by simp
  with receivePackets_count [of this n rs d] ReceivePackets show ?thesis by simp
next
  case (Release p)
  with assms show ?thesis by (auto split: sum.splits dest: release_count)
next
  case (SendPacket recipient header payloadIt now)
  with assms show ?thesis by (auto split: sum.splits dest: sendPacket_count)
qed

lemma driver_calls_count:
  "driver_calls c this (rs, d) cs = Inr (rs', d') \<Longrightarrow>
   packetBufsUtilized d' - int (length rs') + int (releases cs)
     = packetBufsUtilized d - int (length rs) \<and>
   (0 \<le> packetBufsUtilized d \<longrightarrow> 0 \<le> packetBufsUtilized d')"
proof (induction cs arbitrary: rs d)
  case Nil
  then show ?case by (simp add: releases_def)
next
  case (Cons x cs)
  from Cons.prems obtain rs1 d1 where
    step: "do_driver_call c this (rs, d) x = Inr (rs1, d1)" and
    rest: "driver_calls c this (rs1, d1) cs = Inr (rs', d')"
    by (auto split: sum.splits)
  from Cons.IH [OF rest] do_driver_call_count [OF step]
  show ?case by (auto simp: releases_def)
qed


text \<open>
  Claim C1, as amended. Destroying an envelope whose payload is non-null calls \<open>release\<close>
  of the owning driver exactly once, for that payload. \<open>steal\<close> hands out payload and
  length and clears the payload, so that destroying the envelope afterwards releases
  nothing. \<open>DpdkDriver::release\<close> takes one off \<open>packetBufsUtilized\<close> and returns the
  buffer to the pool; a release that would take the count below zero fails the
  assertion, which is the case for every release when no buffer is in use and for the
  second of two releases when one buffer is in use. Along every run of calls that starts
  with a count that is not negative the count stays so, it is the number of envelopes
  received less the number of releases, and so no run releases more often than it
  received.
\<close>

theorem exactly_once_buffer_return:
  "(Received.payload r = Some p \<longrightarrow>
      Received_dtor record_release r calls = Inr (calls @ [p]) \<and>
      Received_dtor release r d = release p d) \<and>
   fst (steal r) = (Received.payload r, len r) \<and>
   Received.payload (snd (steal r)) = None \<and>
   Received_dtor rel (snd (steal r)) e = Inr e \<and>
   (0 < packetBufsUtilized d \<longrightarrow>
      release p d = Inr (d\<lparr>packetBufsUtilized := packetBufsUtilized d - 1,
                           packetBufPool := destroy (packetBufPool d) p\<rparr>) \<and>
      map_of (destroy (packetBufPool d) p) p = None) \<and>
   (packetBufsUtilized d = 1 \<longrightarrow>
      (\<exists>d1. release p d = Inr d1 \<and> release p d1 = Inl AssertionFailed)) \<and>
   (packetBufsUtilized dz \<le> 0 \<longrightarrow> release p dz = Inl AssertionFailed) \<and>
   (0 \<le> packetBufsUtilized d \<and> driver_calls c this (rs, d) cs = Inr (rs', d') \<longrightarrow>
      0 \<le> packetBufsUtilized d' \<and>
      packetBufsUtilized d' =
        packetBufsUtilized d + int (length rs') - int (length rs) - int (releases cs) \<and>
      int (releases cs) \<le> packetBufsUtilized d + int (length rs') - int (length rs))"
proof -
  have dtor: "Received.payload r = Some p \<longrightarrow>
      Received_dtor record_release r calls = Inr (calls @ [p]) \<and>
      Received_dtor release r d = release p d"
    by (simp add: Received_dtor_def record_release_def)
  have st: "fst (steal r) = (Received.payload r, len r)"
      "Received.payload (snd (steal r)) = None"
      "Received_dtor rel (snd (steal r)) e = Inr e"
    by (simp_all add: steal_def Received_dtor_def)
  have gone: "map_of (destroy (packetBufPool d) p) p = None"
    by (auto simp: destroy_def map_of_eq_None_iff)
  have rel1: "0 < packetBufsUtilized d \<longrightarrow>
      release p d = Inr (d\<lparr>packetBufsUtilized := packetBufsUtilized d - 1,
                           packetBufPool := destroy (packetBufPool d) p\<rparr>)"
    by (simp add: release_def Let_def)
  have twice: "packetBufsUtilized d = 1 \<longrightarrow>
      (\<exists>d1. release p d = Inr d1 \<and> release p d1 = Inl AssertionFailed)"
    by (simp add: release_def Let_def)
  have rel0: "packetBufsUtilized dz \<le> 0 \<longrightarrow> release p dz = Inl AssertionFailed"
    by (simp add: release_def Let_def)
  have run: "0 \<le> packetBufsUtilized d \<and> driver_calls c this (rs, d) cs = Inr (rs', d') \<longrightarrow>
      0 \<le> packetBufsUtilized d' \<and>
      packetBufsUtilized d' =
        packetBufsUtilized d + int (length rs') - int (length rs) - int (releases cs) \<and>
      int (releases cs) \<le> packetBufsUtilized d + int (length rs') - int (length rs)"
    using driver_calls_count [of c this rs d cs rs' d'] by auto
  from dtor st gone rel1 twice rel0 run show ?thesis by blast
qed

lemma example_send_receive:
  "driver_calls example_config 7 ([], example_driver)
     [SendPacket example_mac [104, 105] None 0, ReceivePackets 1] =
   Inr ([Received_new (Some 1) (Some 7) 2 (Some 1)], received_driver)"
  by (simp add: send_defs example_defs receive_defs received_driver_def)

theorem exactly_once_buffer_return_witness:
  "Received.payload (Received_new (Some 1) (Some 7) 2 (Some 1)) = Some 1 \<and>
   driver_calls example_config 7 ([], example_driver)
     [SendPacket example_mac [104, 105] None 0, ReceivePackets 1] =
     Inr ([Received_new (Some 1) (Some 7) 2 (Some 1)], received_driver) \<and>
   packetBufsUtilized received_driver = 1 \<and>
   Received_dtor release (Received_new (Some 1) (Some 7) 2 (Some 1)) received_driver
     = release 1 received_driver \<and>
   release 1 received_driver = Inr released_driver \<and>
   release 1 released_driver = Inl AssertionFailed \<and>
   packetBufsUtilized example_driver \<le> 0 \<and>
   release 1 example_driver = Inl AssertionFailed \<and>
   driver_calls example_config 7
     ([Received_new (Some 1) (Some 7) 2 (Some 1)], received_driver) [Release 1] =
     Inr ([Received_new (Some 1) (Some 7) 2 (Some 1)], released_driver) \<and>
   int (releases [Release 1]) \<le> 1"
proof -
  let ?r = "Received_new (Some 1) (Some 7) 2 (Some 1)"
  note inst = exactly_once_buffer_return
    [where r = ?r and p = 1 and calls = "[]" and rel = record_release and e = "[]"
       and d = received_driver and dz = example_driver
       and c = example_config and this = 7 and rs = "[?r]"
       and cs = "[Release 1]" and rs' = "[?r]" and d' = released_driver]
  have p: "Received.payload ?r = Some 1"
    by (simp add: Received_new_def)
  have one: "packetBufsUtilized received_driver = 1"
    by (simp add: received_driver_def example_driver_def)
  have zero: "packetBufsUtilized example_driver \<le> 0"
    by (simp add: example_driver_def)
  from inst p have dtor: "Received_dtor release ?r received_driver = release 1 received_driver"
    by blast
  from inst one
  have "release 1 received_driver =
          Inr (received_driver\<lparr>packetBufsUtilized := packetBufsUtilized received_driver - 1,
                 packetBufPool := destroy (packetBufPool received_driver) 1\<rparr>)"
    by simp
  then have first: "release 1 received_driver = Inr released_driver"
    by (simp add: received_driver_def released_driver_def destroy_def)
       (simp add: example_driver_def)
  from inst one obtain d1 where
    "release 1 received_driver = Inr d1" "release 1 d1 = Inl AssertionFailed"
    by blast
  with first have second: "release 1 released_driver = Inl AssertionFailed"
    by simp
  from inst zero have none: "release 1 example_driver = Inl AssertionFailed"
    by blast
  have run: "driver_calls example_config 7 ([?r], received_driver) [Release 1]
               = Inr ([?r], released_driver)"
    by (simp del: One_nat_def add: first)
  with inst one have "int (releases [Release 1])
                       \<le> packetBufsUtilized received_driver + int (length [?r]) - int (length [?r])"
    by simp
  with one have count: "int (releases [Release 1]) \<le> 1"
    by simp
  show ?thesis
    by (intro conjI) (fact p example_send_receive one dtor first second zero none run count)+
qed

text \<open>
  The claim as first stated has every second release of one payload detected. With two
  buffers in use it is not: the driver sends two packets to its own address, receives
  both, and releases the first buffer twice; both releases pass the assertion, the count
  is 0 and the second buffer is still in the pool.
\<close>

theorem double_release_counterexample:
  "driver_calls example_config 7 ([], example_driver)
     [SendPacket example_mac [104] None 0, SendPacket example_mac [105] None 0,
      ReceivePackets 2, Release 1, Release 1] =
   Inr ([Received_new (Some 1) (Some 7) 1 (Some 1), Received_new (Some 2) (Some 7) 1 (Some 2)],
        example_driver
          \<lparr>packetBufPool := [(2, \<lparr>dpdkAddress = example_mac, payload = [105]\<rparr>)],
           packetBufsUtilized := 0,
           queueEstimator :=
             packetQueued (packetQueued (queueEstimator example_driver) 1 0) 1 0\<rparr>)"
  by (simp add: send_defs example_defs receive_defs release_def destroy_def)

section \<open>What receivePackets delivers\<close>











lemma address_inj: "address x = address y \<longleftrightarrow> x = y"
  by (cases x; cases y) simp




lemma receivePackets_any_maxPackets:
  "receivePackets this n rs d = receivePackets this m rs d"
  by (simp only: receivePackets_polled)

lemma receivePackets_at_most_32:
  "length (fst (receivePackets this n rs d)) \<le> length rs + MAX_PACKETS_AT_ONCE"
  by (simp add: receivePackets_count polled_def MAX_PACKETS_AT_ONCE_def)

text \<open>
  Claim C3. \<open>receivePackets(maxPackets, receivedPackets)\<close> is to append at most
  \<open>maxPackets\<close> envelopes. The code clamps \<open>maxPackets\<close> and then does not use it: a
  driver that has sent two packets to its own address and is then polled with
  \<open>maxPackets = 1\<close> appends two envelopes.
\<close>

theorem receivePackets_exceeds_maxPackets:
  "driver_calls example_config 7 ([], example_driver)
     [SendPacket example_mac [104] None 0, SendPacket example_mac [105] None 0,
      ReceivePackets 1] =
   Inr ([Received_new (Some 1) (Some 7) 1 (Some 1), Received_new (Some 2) (Some 7) 1 (Some 2)],
        example_driver
          \<lparr>packetBufPool := [(2, \<lparr>dpdkAddress = example_mac, payload = [105]\<rparr>),
                             (1, \<lparr>dpdkAddress = example_mac, payload = [104]\<rparr>)],
           packetBufsUtilized := 2,
           queueEstimator :=
             packetQueued (packetQueued (queueEstimator example_driver) 1 0) 1 0\<rparr>)"
  by (simp add: send_defs example_defs receive_defs)

section \<open>What sendPacket does\<close>

lemma sendPacket_totalLength:
  "(of_nat (length header) :: 32 word) +
     (case payloadIt of None \<Rightarrow> 0 | Some segments \<Rightarrow> of_nat (length (concat segments)))
     = totalLength header payloadIt"
  "(case payloadIt of None \<Rightarrow> [] | Some segments \<Rightarrow> concat segments) = payloadBytes payloadIt"
  by (simp_all add: totalLength_def payloadBytes_def split: option.splits)

lemma unat_datagramLength:
  assumes "unat (MAX_PAYLOAD_SIZE c) + sizeofEthernetHeader < 2 ^ 16"
    and "t \<le> MAX_PAYLOAD_SIZE c"
  shows "unat (t + of_nat sizeofEthernetHeader) = unat t + sizeofEthernetHeader"
proof -
  from assms(2) have "unat t \<le> unat (MAX_PAYLOAD_SIZE c)"
    by (simp add: word_le_nat_alt)
  with assms(1) have "unat t + unat (of_nat sizeofEthernetHeader :: 32 word) < 2 ^ LENGTH(32)"
    by (simp add: sizeofEthernetHeader_def)
  then have "unat (t + of_nat sizeofEthernetHeader)
               = unat t + unat (of_nat sizeofEthernetHeader :: 32 word)"
    by (simp only: unat_add_lem)
  then show ?thesis by (simp add: sizeofEthernetHeader_def)
qed

lemma sendPacket_assert:
  "\<not> totalLength header payloadIt \<le> MAX_PAYLOAD_SIZE c \<Longrightarrow>
   sendPacket c recipient header payloadIt now d = Inl AssertionFailed"
  by (simp add: sendPacket_def sendPacket_totalLength Let_def)

lemma sendPacket_no_buffer:
  "totalLength header payloadIt \<le> MAX_PAYLOAD_SIZE c \<Longrightarrow> packetPool d = 0 \<Longrightarrow>
   sendPacket c recipient header payloadIt now d =
     Inr (d\<lparr>logged := logged d @ [''Failed to allocate a packet buffer; dropping packet'']\<rparr>)"
  by (simp add: sendPacket_def sendPacket_totalLength Let_def)

lemma sendPacket_no_room:
  assumes "unat (MAX_PAYLOAD_SIZE c) + sizeofEthernetHeader < 2 ^ 16"
    and "totalLength header payloadIt \<le> MAX_PAYLOAD_SIZE c" and "0 < packetPool d"
    and "MBUF_TAILROOM c < unat (totalLength header payloadIt) + sizeofEthernetHeader"
  shows "sendPacket c recipient header payloadIt now d =
     Inr (d\<lparr>logged := logged d @ [''rte_pktmbuf_append call failed; dropping packet'']\<rparr>)"
proof -
  from assms(2) have "unat (totalLength header payloadIt) \<le> unat (MAX_PAYLOAD_SIZE c)"
    by (simp add: word_le_nat_alt)
  with assms(1) have "unat (totalLength header payloadIt) + sizeofEthernetHeader < 2 ^ 16"
    by simp
  with assms unat_datagramLength [OF assms(1) assms(2)] show ?thesis
    by (simp add: sendPacket_def sendPacket_totalLength Let_def)
qed

lemma sendPacket_submitted:
  assumes "unat (MAX_PAYLOAD_SIZE c) + sizeofEthernetHeader < 2 ^ 16"
    and "totalLength header payloadIt \<le> MAX_PAYLOAD_SIZE c" and "0 < packetPool d"
    and "unat (totalLength header payloadIt) + sizeofEthernetHeader \<le> MBUF_TAILROOM c"
  shows "sendPacket c recipient header payloadIt now d =
     Inr ((if recipient = localMac d
           then (if length (loopbackRing d) < LOOPBACK_RING_CAPACITY
                 then d\<lparr>packetPool := packetPool d - 1,
                        loopbackRing := loopbackRing d @ [frameOf c recipient d header payloadIt]\<rparr>
                 else d\<lparr>packetPool := packetPool d - 1\<rparr>)
           else (if 0 < nicTxFree d
                 then d\<lparr>packetPool := packetPool d - 1,
                        nicTx := nicTx d @ [frameOf c recipient d header payloadIt],
                        nicTxFree := nicTxFree d - 1\<rparr>
                 else d\<lparr>packetPool := packetPool d - 1\<rparr>))
          \<lparr>queueEstimator :=
             packetQueued (queueEstimator d) (unat (totalLength header payloadIt)) (unat now)\<rparr>)"
proof -
  from assms(2) have "unat (totalLength header payloadIt) \<le> unat (MAX_PAYLOAD_SIZE c)"
    by (simp add: word_le_nat_alt)
  with assms(1) have "unat (totalLength header payloadIt) + sizeofEthernetHeader < 2 ^ 16"
    by simp
  with assms unat_datagramLength [OF assms(1) assms(2)] show ?thesis
    by (simp add: sendPacket_def sendPacket_totalLength Let_def address_inj frameOf_def)
qed


text \<open>
  Claim C4, as amended. \<open>sendPacket\<close> throws nothing. A total length above
  \<open>MAX_PAYLOAD_SIZE\<close> fails the assertion. Otherwise the call returns: when no packet
  buffer can be allocated, or the buffer has no room for the frame, it logs one message
  and changes nothing else; when the buffer is there, it logs nothing, hands the frame to
  the loopback ring (recipient equal to the local address) or to the transmit queue of
  the NIC, and then records \<open>packetQueued(totalLength, now)\<close> with the estimator.
\<close>

theorem sendPacket_outcomes:
  assumes cfg: "unat (MAX_PAYLOAD_SIZE c) + sizeofEthernetHeader < 2 ^ 16"
  shows
    "(\<not> totalLength header payloadIt \<le> MAX_PAYLOAD_SIZE c \<longrightarrow>
        sendPacket c recipient header payloadIt now d = Inl AssertionFailed) \<and>
     (totalLength header payloadIt \<le> MAX_PAYLOAD_SIZE c \<and>
      (packetPool d = 0 \<or>
       MBUF_TAILROOM c < unat (totalLength header payloadIt) + sizeofEthernetHeader) \<longrightarrow>
        (\<exists>msg. sendPacket c recipient header payloadIt now d =
                  Inr (d\<lparr>logged := logged d @ [msg]\<rparr>))) \<and>
     (totalLength header payloadIt \<le> MAX_PAYLOAD_SIZE c \<and> 0 < packetPool d \<and>
      unat (totalLength header payloadIt) + sizeofEthernetHeader \<le> MBUF_TAILROOM c \<longrightarrow>
        (\<exists>d'. sendPacket c recipient header payloadIt now d = Inr d' \<and>
           logged d' = logged d \<and>
           queueEstimator d' =
             packetQueued (queueEstimator d) (unat (totalLength header payloadIt)) (unat now) \<and>
           (recipient = localMac d \<longrightarrow>
              nicTx d' = nicTx d \<and>
              (length (loopbackRing d) < LOOPBACK_RING_CAPACITY \<longrightarrow>
                 loopbackRing d' =
                   loopbackRing d @ [frameOf c recipient d header payloadIt])) \<and>
           (recipient \<noteq> localMac d \<longrightarrow>
              loopbackRing d' = loopbackRing d \<and>
              (0 < nicTxFree d \<longrightarrow>
                 nicTx d' = nicTx d @ [frameOf c recipient d header payloadIt]))))"
proof (intro conjI impI)
  assume "\<not> totalLength header payloadIt \<le> MAX_PAYLOAD_SIZE c"
  then show "sendPacket c recipient header payloadIt now d = Inl AssertionFailed"
    by (rule sendPacket_assert)
next
  assume a: "totalLength header payloadIt \<le> MAX_PAYLOAD_SIZE c \<and>
      (packetPool d = 0 \<or>
       MBUF_TAILROOM c < unat (totalLength header payloadIt) + sizeofEthernetHeader)"
  show "\<exists>msg. sendPacket c recipient header payloadIt now d =
                  Inr (d\<lparr>logged := logged d @ [msg]\<rparr>)"
  proof (cases "packetPool d = 0")
    case True
    with a sendPacket_no_buffer [of header payloadIt c d recipient now] show ?thesis
      by blast
  next
    case False
    with a sendPacket_no_room [OF cfg, of header payloadIt d recipient now] show ?thesis
      by auto
  qed
next
  assume a: "totalLength header payloadIt \<le> MAX_PAYLOAD_SIZE c \<and> 0 < packetPool d \<and>
      unat (totalLength header payloadIt) + sizeofEthernetHeader \<le> MBUF_TAILROOM c"
  then have "sendPacket c recipient header payloadIt now d =
     Inr ((if recipient = localMac d
           then (if length (loopbackRing d) < LOOPBACK_RING_CAPACITY
                 then d\<lparr>packetPool := packetPool d - 1,
                        loopbackRing := loopbackRing d @ [frameOf c recipient d header payloadIt]\<rparr>
                 else d\<lparr>packetPool := packetPool d - 1\<rparr>)
           else (if 0 < nicTxFree d
                 then d\<lparr>packetPool := packetPool d - 1,
                        nicTx := nicTx d @ [frameOf c recipient d header payloadIt],
                        nicTxFree := nicTxFree d - 1\<rparr>
                 else d\<lparr>packetPool := packetPool d - 1\<rparr>))
          \<lparr>queueEstimator :=
             packetQueued (queueEstimator d) (unat (totalLength header payloadIt)) (unat now)\<rparr>)"
    using sendPacket_submitted [OF cfg, of header payloadIt d recipient now] by blast
  then show "\<exists>d'. sendPacket c recipient header payloadIt now d = Inr d' \<and>
           logged d' = logged d \<and>
           queueEstimator d' =
             packetQueued (queueEstimator d) (unat (totalLength header payloadIt)) (unat now) \<and>
           (recipient = localMac d \<longrightarrow>
              nicTx d' = nicTx d \<and>
              (length (loopbackRing d) < LOOPBACK_RING_CAPACITY \<longrightarrow>
                 loopbackRing d' =
                   loopbackRing d @ [frameOf c recipient d header payloadIt])) \<and>
           (recipient \<noteq> localMac d \<longrightarrow>
              loopbackRing d' = loopbackRing d \<and>
              (0 < nicTxFree d \<longrightarrow>
                 nicTx d' = nicTx d @ [frameOf c recipient d header payloadIt]))"
    by simp
qed

theorem sendPacket_outcomes_witness:
  "unat (MAX_PAYLOAD_SIZE example_config) + sizeofEthernetHeader < 2 ^ 16 \<and>
   \<not> totalLength (replicate 1401 0) None \<le> MAX_PAYLOAD_SIZE example_config \<and>
   sendPacket example_config peer_mac (replicate 1401 0) None 0 example_driver
     = Inl AssertionFailed \<and>
   totalLength [104, 105] None \<le> MAX_PAYLOAD_SIZE example_config \<and>
   packetPool (example_driver\<lparr>packetPool := 0\<rparr>) = 0 \<and>
   (\<exists>msg. sendPacket example_config peer_mac [104, 105] None 0
             (example_driver\<lparr>packetPool := 0\<rparr>) =
           Inr (example_driver\<lparr>packetPool := 0, logged := [msg]\<rparr>)) \<and>
   0 < packetPool example_driver \<and>
   unat (totalLength [104, 105] None) + sizeofEthernetHeader \<le> MBUF_TAILROOM example_config \<and>
   (\<exists>d'. sendPacket example_config peer_mac [104, 105] None 0 example_driver = Inr d' \<and>
      queueEstimator d' = packetQueued (queueEstimator example_driver) 2 0 \<and>
      nicTx d' = [frameOf example_config peer_mac example_driver [104, 105] None])"
proof -
  note cfg = example_cfg(1)
  have big: "\<not> totalLength (replicate 1401 0) None \<le> MAX_PAYLOAD_SIZE example_config"
    by (simp add: totalLength_def payloadBytes_def example_config_def)
  have small: "totalLength [104, 105] None \<le> MAX_PAYLOAD_SIZE example_config"
    "unat (totalLength [104, 105] None) = 2"
    by (simp_all add: totalLength_def payloadBytes_def example_config_def)
  have none: "packetPool (example_driver\<lparr>packetPool := 0\<rparr>) = 0"
    by simp
  have some: "0 < packetPool example_driver" "0 < nicTxFree example_driver"
    "peer_mac \<noteq> localMac example_driver" "nicTx example_driver = []"
    "logged example_driver = []"
    by (simp_all add: example_driver_def example_mac_def peer_mac_def)
  have room: "unat (totalLength [104, 105] None) + sizeofEthernetHeader
                \<le> MBUF_TAILROOM example_config"
    by (simp add: small) (simp add: example_config_def sizeofEthernetHeader_def)
  from sendPacket_outcomes
         [OF cfg, where header = "replicate 1401 0" and payloadIt = None
            and recipient = peer_mac and now = 0 and d = example_driver] big
  have 1: "sendPacket example_config peer_mac (replicate 1401 0) None 0 example_driver
             = Inl AssertionFailed"
    by blast
  from sendPacket_outcomes
         [OF cfg, where header = "[104, 105]" and payloadIt = None and recipient = peer_mac
            and now = 0 and d = "example_driver\<lparr>packetPool := 0\<rparr>"]
       small(1) none some(5)
  have 2: "\<exists>msg. sendPacket example_config peer_mac [104, 105] None 0
             (example_driver\<lparr>packetPool := 0\<rparr>) =
           Inr (example_driver\<lparr>packetPool := 0, logged := [msg]\<rparr>)"
    by simp
  from sendPacket_outcomes
         [OF cfg, where header = "[104, 105]" and payloadIt = None and recipient = peer_mac
            and now = 0 and d = example_driver]
       small some room
  have 3: "\<exists>d'. sendPacket example_config peer_mac [104, 105] None 0 example_driver = Inr d' \<and>
      queueEstimator d' = packetQueued (queueEstimator example_driver) 2 0 \<and>
      nicTx d' = [frameOf example_config peer_mac example_driver [104, 105] None]"
    by auto
  from cfg big 1 small(1) none 2 some(1) room 3 show ?thesis by blast
qed

theorem sendPacket_oversize_counterexample:
  "getMaxPacketSize example_config < totalLength (replicate 1387 0) None \<and>
   sendPacket example_config peer_mac (replicate 1387 0) None 0 example_driver =
     Inr (example_driver
            \<lparr>packetPool := 7,
             nicTx := [frameOf example_config peer_mac example_driver (replicate 1387 0) None],
             nicTxFree := 3,
             queueEstimator := packetQueued (queueEstimator example_driver) 1387 0\<rparr>) \<and>
   getMaxPacketSize example_config < totalLength (replicate 1401 0) None \<and>
   sendPacket example_config peer_mac (replicate 1401 0) None 0 example_driver =
     Inl AssertionFailed"
proof -
  have t: "totalLength (replicate 1387 0) None = 1387" "totalLength (replicate 1401 0) None = 1401"
    by (simp_all add: totalLength_def payloadBytes_def)
  have m: "getMaxPacketSize example_config = 1386" "MAX_PAYLOAD_SIZE example_config = 1400"
    by (simp_all add: getMaxPacketSize_def example_config_def sizeofEthernetHeader_def)
  have 1: "sendPacket example_config peer_mac (replicate 1401 0) None 0 example_driver =
     Inl AssertionFailed"
    by (rule sendPacket_assert) (simp add: t m)
  have 2: "sendPacket example_config peer_mac (replicate 1387 0) None 0 example_driver =
     Inr (example_driver
            \<lparr>packetPool := 7,
             nicTx := [frameOf example_config peer_mac example_driver (replicate 1387 0) None],
             nicTxFree := 3,
             queueEstimator := packetQueued (queueEstimator example_driver) 1387 0\<rparr>)"
    by (subst sendPacket_submitted [OF example_cfg(1)])
       (simp_all add: t m, simp_all add: example_driver_def example_config_def
          sizeofEthernetHeader_def example_mac_def peer_mac_def)
  from 1 2 show ?thesis by (simp add: t m)
qed


section \<open>From sendPacket to receivePackets\<close>






section \<open>The estimate of the transmit queue\<close>

lemma getQueueSize_nonneg: "0 \<le> fst (getQueueSize e now)"
  by (simp add: getQueueSize_def Let_def)

lemma getQueueSize_fields:
  "bandwidth (snd (getQueueSize e now)) = bandwidth e"
  "lastTime (snd (getQueueSize e now)) = now"
  "backlog (snd (getQueueSize e now))
     = max 0 (backlog e - of_int (int now - int (lastTime e)) * bandwidth e)"
  "fst (getQueueSize e now) = \<lfloor>backlog (snd (getQueueSize e now))\<rfloor>"
  by (simp_all add: getQueueSize_def Let_def)

lemma getQueueSize_same_time:
  "lastTime e = now \<Longrightarrow> 0 \<le> backlog e \<Longrightarrow> fst (getQueueSize e now) = \<lfloor>backlog e\<rfloor>"
  by (simp add: getQueueSize_def Let_def)

lemma packetQueued_fields:
  "bandwidth (packetQueued e bytes now) = bandwidth e"
  "lastTime (packetQueued e bytes now) = now"
  "backlog (packetQueued e bytes now) = backlog (snd (getQueueSize e now)) + of_nat bytes"
  by (simp_all add: packetQueued_def getQueueSize_def Let_def)

lemma getQueueSize_after_packetQueued:
  "fst (getQueueSize e now) \<le> fst (getQueueSize (packetQueued e bytes now) now)"
proof -
  have b: "0 \<le> backlog (snd (getQueueSize e now))"
    by (simp add: getQueueSize_fields)
  then have "0 \<le> backlog (packetQueued e bytes now)"
    by (simp add: packetQueued_fields)
  then have "fst (getQueueSize (packetQueued e bytes now) now)
               = \<lfloor>backlog (snd (getQueueSize e now)) + of_nat bytes\<rfloor>"
    by (simp add: getQueueSize_same_time packetQueued_fields)
  moreover have "\<lfloor>backlog (snd (getQueueSize e now))\<rfloor>
                   \<le> \<lfloor>backlog (snd (getQueueSize e now)) + of_nat bytes\<rfloor>"
    by (rule floor_mono) simp
  ultimately show ?thesis by (simp add: getQueueSize_fields)
qed

lemma backlog_decays:
  assumes "0 \<le> bandwidth e" "lastTime e \<le> now"
  shows "backlog (snd (getQueueSize e now)) \<le> max 0 (backlog e)"
proof -
  from assms have "0 \<le> of_int (int now - int (lastTime e)) * bandwidth e"
    by simp
  then show ?thesis by (simp add: getQueueSize_fields max_def)
qed

lemma getQueueSize_later:
  assumes "0 \<le> bandwidth e" "t1 \<le> t2"
  shows "fst (getQueueSize (snd (getQueueSize e t1)) t2) \<le> fst (getQueueSize e t1)"
proof -
  let ?e1 = "snd (getQueueSize e t1)"
  from assms have "backlog (snd (getQueueSize ?e1 t2)) \<le> max 0 (backlog ?e1)"
    by (intro backlog_decays) (simp_all add: getQueueSize_fields)
  moreover have "0 \<le> backlog ?e1" by (simp add: getQueueSize_fields)
  ultimately have "backlog (snd (getQueueSize ?e1 t2)) \<le> backlog ?e1" by simp
  then have "\<lfloor>backlog (snd (getQueueSize ?e1 t2))\<rfloor> \<le> \<lfloor>backlog ?e1\<rfloor>"
    by (rule floor_mono)
  then show ?thesis by (simp add: getQueueSize_fields(4))
qed

lemma do_call_bound:
  assumes "0 \<le> bandwidth e" "lastTime e \<le> call_time x"
  shows "bandwidth (do_call e x) = bandwidth e \<and> lastTime (do_call e x) = call_time x \<and>
         max 0 (backlog (do_call e x)) \<le> max 0 (backlog e) + of_nat (call_bytes x)"
proof (cases x)
  case (Queued bytes now)
  with assms backlog_decays [of e now]
  have "backlog (snd (getQueueSize e now)) \<le> max 0 (backlog e)" by simp
  with Queued show ?thesis by (simp add: packetQueued_fields)
next
  case (Query now)
  with assms backlog_decays [of e now]
  have "backlog (snd (getQueueSize e now)) \<le> max 0 (backlog e)" by simp
  with Query show ?thesis by (simp add: getQueueSize_fields(1,2))
qed

lemma estimator_calls_bound:
  "0 \<le> bandwidth e \<Longrightarrow> sorted (lastTime e # map call_time cs) \<Longrightarrow>
   bandwidth (estimator_calls e cs) = bandwidth e \<and>
   lastTime (estimator_calls e cs) = last (lastTime e # map call_time cs) \<and>
   max 0 (backlog (estimator_calls e cs))
     \<le> max 0 (backlog e) + of_nat (sum_list (map call_bytes cs))"
proof (induction cs arbitrary: e)
  case Nil
  then show ?case by (simp add: estimator_calls_def)
next
  case (Cons x cs)
  from Cons.prems have t: "lastTime e \<le> call_time x" by simp
  note step = do_call_bound [OF Cons.prems(1) t]
  from step Cons.prems have "0 \<le> bandwidth (do_call e x)"
    "sorted (lastTime (do_call e x) # map call_time cs)"
    by simp_all
  note rest = Cons.IH [OF this]
  from rest step
  have "max 0 (backlog (estimator_calls (do_call e x) cs))
          \<le> max 0 (backlog e) + of_nat (call_bytes x) + of_nat (sum_list (map call_bytes cs))"
    by linarith
  with rest step show ?case
    by (simp add: estimator_calls_def)
qed

lemma reported_bound:
  assumes "0 \<le> bandwidth e" "sorted (lastTime e # map call_time cs @ [now])"
  shows "of_int (fst (getQueueSize (estimator_calls e cs) now))
           \<le> max 0 (backlog e) + (of_nat (sum_list (map call_bytes cs)) :: rat)"
proof -
  let ?e = "estimator_calls e cs"
  have "last (lastTime e # map call_time cs) \<in> set (lastTime e # map call_time cs)"
    by (rule last_in_set) simp
  moreover from assms(2) have "sorted ((lastTime e # map call_time cs) @ [now])"
    by simp
  ultimately have s: "sorted (lastTime e # map call_time cs)"
    "last (lastTime e # map call_time cs) \<le> now"
    unfolding sorted_append by auto
  note inv = estimator_calls_bound [OF assms(1) s(1)]
  with s(2) assms(1) have "backlog (snd (getQueueSize ?e now)) \<le> max 0 (backlog ?e)"
    by (intro backlog_decays) simp_all
  with inv have "backlog (snd (getQueueSize ?e now))
                   \<le> max 0 (backlog e) + of_nat (sum_list (map call_bytes cs))"
    by linarith
  moreover have "of_int \<lfloor>backlog (snd (getQueueSize ?e now))\<rfloor>
                   \<le> backlog (snd (getQueueSize ?e now))"
    by (rule of_int_floor_le)
  ultimately have "of_int \<lfloor>backlog (snd (getQueueSize ?e now))\<rfloor>
                     \<le> max 0 (backlog e) + (of_nat (sum_list (map call_bytes cs)) :: rat)"
    by (rule order_trans [rotated])
  then show ?thesis by (simp only: getQueueSize_fields(4))
qed

text \<open>
  Claim C7. The size that \<open>getQueueSize\<close> reports is never negative. Right after
  \<open>packetQueued(bytes, now)\<close> the size reported for \<open>now\<close> is not below the size
  reported for \<open>now\<close> before the call. With a bandwidth that is not negative and no call
  of \<open>packetQueued\<close> in between, a later query reports no more than an earlier one, the
  backlog having gone down by the elapsed time multiplied by the bandwidth, but not below
  zero. Along a history of calls at times that do not go back, the size reported is at
  most the backlog at the start plus the bytes queued since.
\<close>

theorem estimator_monotone:
  "0 \<le> fst (getQueueSize e now) \<and>
   fst (getQueueSize e now) \<le> fst (getQueueSize (packetQueued e bytes now) now) \<and>
   (0 \<le> bandwidth e \<and> t1 \<le> t2 \<longrightarrow>
      fst (getQueueSize (snd (getQueueSize e t1)) t2) \<le> fst (getQueueSize e t1) \<and>
      backlog (snd (getQueueSize (snd (getQueueSize e t1)) t2))
        = max 0 (backlog (snd (getQueueSize e t1)) - of_nat (t2 - t1) * bandwidth e)) \<and>
   (0 \<le> bandwidth e \<and> sorted (lastTime e # map call_time cs @ [now]) \<longrightarrow>
      of_int (fst (getQueueSize (estimator_calls e cs) now))
        \<le> max 0 (backlog e) + (of_nat (sum_list (map call_bytes cs)) :: rat))"
proof -
  have decay: "t1 \<le> t2 \<longrightarrow>
      backlog (snd (getQueueSize (snd (getQueueSize e t1)) t2))
        = max 0 (backlog (snd (getQueueSize e t1)) - of_nat (t2 - t1) * bandwidth e)"
    by (simp add: getQueueSize_fields of_nat_diff)
  from getQueueSize_nonneg [of e now] getQueueSize_after_packetQueued [of e now bytes]
    getQueueSize_later [of e t1 t2] decay reported_bound [of e cs now]
  show ?thesis by blast
qed


theorem estimator_monotone_witness:
  "0 \<le> bandwidth (QueueEstimator_new 2000000000 40000) \<and> (0::nat) \<le> 100 \<and>
   sorted (lastTime (QueueEstimator_new 2000000000 40000)
             # map call_time [Queued 1000 0, Queued 400 100] @ [200]) \<and>
   fst (getQueueSize (snd (getQueueSize (packetQueued (QueueEstimator_new 2000000000 40000)
          1000 0) 0)) 100)
     \<le> fst (getQueueSize (packetQueued (QueueEstimator_new 2000000000 40000) 1000 0) 0) \<and>
   fst (getQueueSize (estimator_calls (QueueEstimator_new 2000000000 40000)
          [Queued 1000 0, Queued 400 100]) 200) = 900 \<and>
   (of_int (fst (getQueueSize (estimator_calls (QueueEstimator_new 2000000000 40000)
          [Queued 1000 0, Queued 400 100]) 200)) :: rat)
     \<le> max 0 (backlog (QueueEstimator_new 2000000000 40000))
         + of_nat (sum_list (map call_bytes [Queued 1000 0, Queued 400 100]))"
proof -
  let ?e = "QueueEstimator_new 2000000000 40000"
  let ?cs = "[Queued 1000 0, Queued 400 100]"
  have e: "?e = \<lparr>bandwidth = 5 / 2, lastTime = 0, backlog = 0\<rparr>"
    by (simp add: QueueEstimator_new_def setBandwidth_def)
  have bw: "0 \<le> bandwidth ?e" "0 \<le> bandwidth (packetQueued ?e 1000 0)"
    by (simp_all add: e packetQueued_def getQueueSize_def)
  have t: "(0::nat) \<le> 100" by simp
  have s: "sorted (lastTime ?e # map call_time ?cs @ [200])"
    by (simp add: e)
  have v: "fst (getQueueSize (estimator_calls ?e ?cs) 200) = 900"
    by (simp add: e estimator_calls_def packetQueued_def getQueueSize_def)
  from estimator_monotone
         [where e = "packetQueued ?e 1000 0" and ?t1.0 = 0 and ?t2.0 = 100] bw(2) t
  have 1: "fst (getQueueSize (snd (getQueueSize (packetQueued ?e 1000 0) 0)) 100)
             \<le> fst (getQueueSize (packetQueued ?e 1000 0) 0)"
    by blast
  from estimator_monotone [where e = ?e and cs = ?cs and now = 200] bw(1) s
  have 2: "(of_int (fst (getQueueSize (estimator_calls ?e ?cs) 200)) :: rat)
             \<le> max 0 (backlog ?e) + of_nat (sum_list (map call_bytes ?cs))"
    by blast
  from bw(1) t s 1 v 2 show ?thesis by blast
qed

section \<open>The size of the transmit queue\<close>

lemma double_to_uint32_of_int:
  assumes "0 \<le> k" "k < 2 ^ 32"
  shows "double_to_uint32 (of_int k) = Some (word_of_int k)"
proof -
  from assms(1) have "(0::rat) \<le> of_int k" by simp
  then have lo: "- 1 < (of_int k :: rat)" by linarith
  from assms(2) have "(of_int k :: rat) < of_int (2 ^ 32)"
    by (simp only: of_int_less_iff)
  then have hi: "(of_int k :: rat) < 2 ^ 32" by simp
  from lo hi assms(1) show ?thesis by (simp add: double_to_uint32_def)
qed

text \<open>
  Claim C5. For a bandwidth of \<open>B\<close> Gbit/s, with \<open>B\<close> not negative and
  \<open>B * MAX_DRAIN_TIME / 8\<close> a \<open>uint32_t\<close>, the constructor sets \<open>maxTransmitQueueSize\<close> to
  \<open>B * MAX_DRAIN_TIME / 8\<close>, which is a whole number, unless that is below twice
  \<open>getMaxPacketSize()\<close>, in which case it sets it to exactly twice \<open>getMaxPacketSize()\<close>.
\<close>

theorem maxTransmitQueueSize_derivation:
  assumes "0 \<le> B" "B * int MAX_DRAIN_TIME div 8 < 2 ^ 32"
    and "2 * unat (getMaxPacketSize c) < 2 ^ 32"
  shows "\<exists>q. computeMaxTransmitQueueSize c B = Some q \<and>
           int (unat q) = (if B * int MAX_DRAIN_TIME div 8 < 2 * int (unat (getMaxPacketSize c))
                           then 2 * int (unat (getMaxPacketSize c))
                           else B * int MAX_DRAIN_TIME div 8) \<and>
           (of_int B * of_nat MAX_DRAIN_TIME / 8 :: rat) = of_int (B * int MAX_DRAIN_TIME div 8)"
proof -
  let ?k = "B * 250"
  have k: "B * int MAX_DRAIN_TIME div 8 = ?k"
    by (simp add: MAX_DRAIN_TIME_def)
  have exact: "(of_int B * of_nat MAX_DRAIN_TIME / 8 :: rat) = of_int ?k"
    by (simp add: MAX_DRAIN_TIME_def)
  from assms k have range: "0 \<le> ?k" "?k < 2 ^ 32" by simp_all
  then have conv: "double_to_uint32 (of_int B * of_nat MAX_DRAIN_TIME / 8) = Some (word_of_int ?k)"
    unfolding exact by (rule double_to_uint32_of_int)
  let ?q = "word_of_int ?k :: 32 word"
  let ?m = "getMaxPacketSize c"
  from range have "uint ?q = ?k"
    by (simp only: uint_word_of_int) simp
  then have uq: "int (unat ?q) = ?k" by simp
  from assms(3) have "unat (2 :: 32 word) * unat ?m < 2 ^ LENGTH(32)" by simp
  then have "unat (2 * ?m) = unat (2 :: 32 word) * unat ?m"
    by (simp only: unat_mult_lem)
  then have "unat (2 * ?m) = 2 * unat ?m" by simp
  then have um: "int (unat (2 * ?m)) = 2 * int (unat ?m)"
    by (simp only: of_nat_mult of_nat_numeral)
  have cmp: "?q < 2 * ?m \<longleftrightarrow> ?k < 2 * int (unat ?m)"
  proof -
    have "?q < 2 * ?m \<longleftrightarrow> unat ?q < unat (2 * ?m)"
      by (rule word_less_nat_alt)
    also have "\<dots> \<longleftrightarrow> int (unat ?q) < int (unat (2 * ?m))"
      by (simp only: of_nat_less_iff)
    finally show ?thesis by (simp only: uq um)
  qed
  show ?thesis
  proof (cases "?q < 2 * ?m")
    case True
    with conv have comp: "computeMaxTransmitQueueSize c B = Some (2 * ?m)"
      by (simp add: computeMaxTransmitQueueSize_def Let_def)
    from True cmp have "?k < 2 * int (unat ?m)" by blast
    with um have "int (unat (2 * ?m))
                    = (if ?k < 2 * int (unat ?m) then 2 * int (unat ?m) else ?k)"
      by (simp only: if_True)
    with comp exact show ?thesis unfolding k by blast
  next
    case False
    with conv have comp: "computeMaxTransmitQueueSize c B = Some ?q"
      by (simp add: computeMaxTransmitQueueSize_def Let_def)
    from False cmp have "\<not> ?k < 2 * int (unat ?m)" by blast
    with uq have "int (unat ?q)
                    = (if ?k < 2 * int (unat ?m) then 2 * int (unat ?m) else ?k)"
      by (simp only: if_False)
    with comp exact show ?thesis unfolding k by blast
  qed
qed

theorem maxTransmitQueueSize_derivation_witness:
  "(0::int) \<le> 40 \<and> 40 * int MAX_DRAIN_TIME div 8 < 2 ^ 32 \<and> (0::int) \<le> 1 \<and>
   1 * int MAX_DRAIN_TIME div 8 < 2 ^ 32 \<and>
   2 * unat (getMaxPacketSize example_config) < 2 ^ 32 \<and>
   (\<exists>q. computeMaxTransmitQueueSize example_config 40 = Some q \<and> int (unat q) = 10000) \<and>
   (\<exists>q. computeMaxTransmitQueueSize example_config 1 = Some q \<and>
      int (unat q) = 2 * int (unat (getMaxPacketSize example_config)))"
proof -
  have m: "getMaxPacketSize example_config = 1386"
    by (simp add: getMaxPacketSize_def example_config_def sizeofEthernetHeader_def)
  have h: "(0::int) \<le> 40" "40 * int MAX_DRAIN_TIME div 8 < 2 ^ 32" "(0::int) \<le> 1"
    "1 * int MAX_DRAIN_TIME div 8 < 2 ^ 32"
    "2 * unat (getMaxPacketSize example_config) < 2 ^ 32"
    by (simp_all add: MAX_DRAIN_TIME_def m)
  have v: "40 * int MAX_DRAIN_TIME div 8 = 10000" "1 * int MAX_DRAIN_TIME div 8 = 250"
    "2 * int (unat (getMaxPacketSize example_config)) = 2772"
    by (simp_all add: MAX_DRAIN_TIME_def m)
  from maxTransmitQueueSize_derivation [OF h(1) h(2) h(5)]
  have 1: "\<exists>q. computeMaxTransmitQueueSize example_config 40 = Some q \<and> int (unat q) = 10000"
    unfolding v by auto
  from maxTransmitQueueSize_derivation [OF h(3) h(4) h(5)]
  have 2: "\<exists>q. computeMaxTransmitQueueSize example_config 1 = Some q \<and>
      int (unat q) = 2 * int (unat (getMaxPacketSize example_config))"
    unfolding v by auto
  from h 1 2 show ?thesis by blast
qed

lemma sint_uint32_difference:
  assumes "- (2 ^ 31) \<le> uint w - q" "uint w - q < 2 ^ 31"
  shows "sint (w - word_of_int q :: 32 word) = uint w - q"
proof -
  have "w - word_of_int q = (word_of_int (uint w - q) :: 32 word)"
    by simp
  then have "sint (w - word_of_int q) = signed_take_bit (LENGTH(32) - 1) (uint w - q)"
    by (simp only: sint_sbintrunc')
  also from assms have "\<dots> = uint w - q"
    by (simp add: signed_take_bit_int_eq_self_iff)
  finally show ?thesis .
qed

lemma oversent_value: "fst (getTransmitQueueSpace oversent_driver 0) = - 1386"
  by (simp add: getTransmitQueueSpace_def oversent_driver_def example_driver_def
        QueueEstimator_new_def setBandwidth_def packetQueued_def getQueueSize_def)

text \<open>
  Claim C6. \<open>DpdkDriver::getTransmitQueueSpace(t)\<close> is \<open>maxTransmitQueueSize\<close> less the
  estimator's \<open>getQueueSize(t)\<close>, whenever that difference is an \<open>int\<close>; the call leaves
  the driver as it was but for the estimator, which has answered the query. The result
  is negative for a caller that has sent too much. The default of the base class is the
  constant 10000000 at every time.
\<close>

theorem getTransmitQueueSpace_difference:
  "(- (2 ^ 31) \<le> uint (maxTransmitQueueSize d) - fst (getQueueSize (queueEstimator d) (unat t)) \<and>
    uint (maxTransmitQueueSize d) - fst (getQueueSize (queueEstimator d) (unat t)) < 2 ^ 31 \<longrightarrow>
      fst (getTransmitQueueSpace d t)
        = uint (maxTransmitQueueSize d) - fst (getQueueSize (queueEstimator d) (unat t))) \<and>
   snd (getTransmitQueueSpace d t)
     = d\<lparr>queueEstimator := snd (getQueueSize (queueEstimator d) (unat t))\<rparr> \<and>
   fst (getTransmitQueueSpace oversent_driver 0) < 0 \<and>
   Driver_getTransmitQueueSpace t = 10000000 \<and>
   Driver_getTransmitQueueSpace t = Driver_getTransmitQueueSpace t'"
proof -
  have v: "fst (getTransmitQueueSpace d t)
             = sint (maxTransmitQueueSize d
                       - word_of_int (fst (getQueueSize (queueEstimator d) (unat t))))"
    "snd (getTransmitQueueSpace d t)
       = d\<lparr>queueEstimator := snd (getQueueSize (queueEstimator d) (unat t))\<rparr>"
    by (simp_all add: getTransmitQueueSpace_def split: prod.splits)
  from v sint_uint32_difference
         [of "maxTransmitQueueSize d" "fst (getQueueSize (queueEstimator d) (unat t))"]
       oversent_value
  show ?thesis by (simp add: Driver_getTransmitQueueSpace_def)
qed

theorem getTransmitQueueSpace_difference_witness:
  "- (2 ^ 31) \<le> uint (maxTransmitQueueSize oversent_driver)
                   - fst (getQueueSize (queueEstimator oversent_driver) (unat (0 :: 64 word))) \<and>
   uint (maxTransmitQueueSize oversent_driver)
     - fst (getQueueSize (queueEstimator oversent_driver) (unat (0 :: 64 word))) < 2 ^ 31 \<and>
   uint (maxTransmitQueueSize oversent_driver) = 2772 \<and>
   fst (getQueueSize (queueEstimator oversent_driver) (unat (0 :: 64 word))) = 4158 \<and>
   fst (getTransmitQueueSpace oversent_driver 0) = 2772 - 4158"
proof -
  have m: "uint (maxTransmitQueueSize oversent_driver) = 2772"
    by (simp add: oversent_driver_def example_driver_def)
  have q: "fst (getQueueSize (queueEstimator oversent_driver) (unat (0 :: 64 word))) = 4158"
    by (simp add: oversent_driver_def example_driver_def
          QueueEstimator_new_def setBandwidth_def packetQueued_def getQueueSize_def)
  have r: "- (2 ^ 31) \<le> uint (maxTransmitQueueSize oversent_driver)
                   - fst (getQueueSize (queueEstimator oversent_driver) (unat (0 :: 64 word)))"
    "uint (maxTransmitQueueSize oversent_driver)
       - fst (getQueueSize (queueEstimator oversent_driver) (unat (0 :: 64 word))) < 2 ^ 31"
    unfolding m q by simp_all
  from getTransmitQueueSpace_difference [of oversent_driver 0] r
  have "fst (getTransmitQueueSpace oversent_driver 0)
          = uint (maxTransmitQueueSize oversent_driver)
              - fst (getQueueSize (queueEstimator oversent_driver) (unat (0 :: 64 word)))"
    by blast
  then have "fst (getTransmitQueueSpace oversent_driver 0) = 2772 - 4158"
    unfolding m q .
  with r m q show ?thesis by blast
qed

section \<open>Errors of newAddress\<close>

text \<open>
  Claim C8. When the required option is absent from the locator, \<open>newAddress\<close> fails with
  \<open>NoSuchKeyException\<close>; when it is present and its value is malformed, with
  \<open>BadValueException\<close>; when it is present and well formed, \<open>newAddress\<close> returns the
  address. The two errors are different values. A value with a character that is not a
  digit is malformed as a number.
\<close>

theorem newAddress_error_kinds:
  "(map_of locator key = None \<longrightarrow> newAddress key parse locator = Inl NoSuchKeyException) \<and>
   (map_of locator key = Some v \<and> parse v = None \<longrightarrow>
      newAddress key parse locator = Inl BadValueException) \<and>
   (map_of locator key = Some v \<and> parse v = Some a \<longrightarrow>
      newAddress key parse locator = Inr a) \<and>
   NoSuchKeyException \<noteq> BadValueException \<and>
   (c \<in> set s \<and> digit c = None \<longrightarrow> number s = None)"
proof -
  have "c \<in> set s \<Longrightarrow> digit c = None \<Longrightarrow> number_from acc s = None" for acc
    by (induction s arbitrary: acc) (auto split: option.splits)
  then have "c \<in> set s \<and> digit c = None \<longrightarrow> number s = None"
    by (auto simp: number_def)
  then show ?thesis
    by (simp add: newAddress_def getOption_def)
qed

theorem newAddress_error_kinds_witness:
  "map_of [(''host'', ''rc01'')] ''port'' = None \<and>
   newAddress ''port'' number [(''host'', ''rc01'')] = Inl NoSuchKeyException \<and>
   map_of [(''host'', ''rc01''), (''port'', ''12x'')] ''port'' = Some ''12x'' \<and>
   CHR ''x'' \<in> set ''12x'' \<and> digit CHR ''x'' = None \<and> number ''12x'' = None \<and>
   newAddress ''port'' number [(''host'', ''rc01''), (''port'', ''12x'')]
     = Inl BadValueException \<and>
   map_of [(''host'', ''rc01''), (''port'', ''11100'')] ''port'' = Some ''11100'' \<and>
   number ''11100'' = Some 11100 \<and>
   newAddress ''port'' number [(''host'', ''rc01''), (''port'', ''11100'')] = Inr 11100"
proof -
  have a: "map_of [(''host'', ''rc01'')] ''port'' = None"
    "map_of [(''host'', ''rc01''), (''port'', ''12x'')] ''port'' = Some ''12x''"
    "map_of [(''host'', ''rc01''), (''port'', ''11100'')] ''port'' = Some ''11100''"
    by simp_all
  have x: "CHR ''x'' \<in> set ''12x''" "digit CHR ''x'' = None"
    by (simp_all add: digit_def)
  have n: "number ''11100'' = Some 11100"
    by (simp add: number_def digit_def)
  note kinds = newAddress_error_kinds [where parse = number and key = "''port''"]
  from kinds [where locator = "[(''host'', ''rc01'')]", THEN conjunct1] a(1)
  have 1: "newAddress ''port'' number [(''host'', ''rc01'')] = Inl NoSuchKeyException"
    by (rule mp)
  from x have "CHR ''x'' \<in> set ''12x'' \<and> digit CHR ''x'' = None" by (rule conjI)
  with kinds [where c = "CHR ''x''" and s = "''12x''",
              THEN conjunct2, THEN conjunct2, THEN conjunct2, THEN conjunct2]
  have bad: "number ''12x'' = None"
    by (rule mp)
  from a(2) bad
  have "map_of [(''host'', ''rc01''), (''port'', ''12x'')] ''port'' = Some ''12x'' \<and>
          number ''12x'' = None"
    by (rule conjI)
  with kinds [where locator = "[(''host'', ''rc01''), (''port'', ''12x'')]" and v = "''12x''",
              THEN conjunct2, THEN conjunct1]
  have 2: "newAddress ''port'' number [(''host'', ''rc01''), (''port'', ''12x'')]
             = Inl BadValueException"
    by (rule mp)
  from a(3) n
  have "map_of [(''host'', ''rc01''), (''port'', ''11100'')] ''port'' = Some ''11100'' \<and>
          number ''11100'' = Some 11100"
    by (rule conjI)
  with kinds [where locator = "[(''host'', ''rc01''), (''port'', ''11100'')]"
                and v = "''11100''" and a = 11100,
              THEN conjunct2, THEN conjunct2, THEN conjunct1]
  have 3: "newAddress ''port'' number [(''host'', ''rc01''), (''port'', ''11100'')]
                  = Inr 11100"
    by (rule mp)
  show ?thesis
    by (intro conjI) (fact a x n 1 bad 2 3)+
qed

end
